theory Spec2Isabelle
  imports Main "HOL-Library.Char_ord" "HOL-Library.List_Lexorder" "HOL-Library.Multiset"
begin

section \<open>The note store of \<open>src/app.js\<close>\<close>

text \<open>
  The program keeps two Dexie tables, \<open>folders\<close> and \<open>memos\<close>, both keyed by the
  property \<open>id\<close> of the stored object, and the object \<open>Store\<close> wraps them in
  asynchronous functions. The embedding below follows \<open>Store\<close> function by function.

  \<^item> A stored object is a record. Its property \<open>id\<close> is the field \<open>id'\<close> (the
    name \<open>id\<close> is the identity function of HOL).
  \<^item> A timestamp is written by \<open>new Date().toISOString()\<close> and read back by
    \<open>new Date(s)\<close>; it is represented by the instant it denotes, in milliseconds.
  \<^item> An optional string property is a \<open>string option\<close>, \<open>None\<close> being
    \<open>undefined\<close>. A string is the list of the bytes of its text in UTF-8.
  \<^item> Two names of the source are taken in Isabelle: \<open>includes\<close> is \<open>str_includes\<close>
    here and \<open>sort\<close> is \<open>array_sort\<close>.
  \<^item> The clock and \<open>generateId()\<close> are inputs: every function takes the values
    that \<open>new Date()\<close> and \<open>generateId()\<close> give during the call as arguments.
  \<^item> An \<open>async\<close> function is a function from the database to an outcome and the
    database it leaves. A rejected promise is \<open>Inl\<close> of the error; what was written
    before the rejection stays written, since no function of \<open>Store\<close> opens a
    transaction.
\<close>

subsection \<open>Records\<close>

type_synonym timestamp = int

record entity =
  id' :: string
  createdAt :: timestamp
  updatedAt :: timestamp

record folder = entity +
  name :: string

record memo = entity +
  folderId :: "string option"
  title :: "string option"
  content :: "string option"

text \<open>The object literal a caller passes to \<open>addMemo\<close>: any of the properties may be there.\<close>

record memo_input =
  in_id :: "string option"
  in_folderId :: "string option"
  in_title :: "string option"
  in_content :: "string option"
  in_createdAt :: "timestamp option"
  in_updatedAt :: "timestamp option"

text \<open>
  The object literal a caller passes to \<open>updateMemo\<close>. Changing the primary key through
  \<open>Table.update\<close> is not modelled, so the record has no \<open>id\<close>.
\<close>

record memo_updates =
  upd_folderId :: "string option"
  upd_title :: "string option"
  upd_content :: "string option"
  upd_createdAt :: "timestamp option"
  upd_updatedAt :: "timestamp option"

text \<open>The document \<open>exportAllData\<close> builds and \<open>importData\<close> reads.\<close>

record backup =
  data_folders :: "folder list option"
  data_memos :: "memo list option"
  exportedAt :: "timestamp option"

record db =
  folders :: "folder list"
  memos :: "memo list"

datatype error = ConstraintError | BulkError nat | InvalidKey

type_synonym 'a outcome = "error + 'a"

subsection \<open>Dexie tables\<close>

text \<open>
  A table is the list of its objects in the order of their primary keys, which is the
  order \<open>toArray()\<close> returns them in. \<open>add\<close> rejects with a constraint error when the
  key is taken; \<open>bulkAdd\<close> outside a transaction stores every object whose key is free
  and rejects when one was not; \<open>update\<close> and \<open>delete\<close> on a key that is not there do
  nothing.
\<close>

definition toArray :: "'a entity_scheme list \<Rightarrow> 'a entity_scheme list" where
  "toArray t = t"

definition table_get :: "string \<Rightarrow> 'a entity_scheme list \<Rightarrow> 'a entity_scheme option" where
  "table_get k t = find (\<lambda>r. id' r = k) t"

definition table_add :: "'a entity_scheme \<Rightarrow> 'a entity_scheme list \<Rightarrow> error + 'a entity_scheme list" where
  "table_add r t =
     (case table_get (id' r) t of
        Some _ \<Rightarrow> Inl ConstraintError
      | None \<Rightarrow> Inr (insort_key id' r t))"

fun table_bulkAdd :: "'a entity_scheme list \<Rightarrow> 'a entity_scheme list \<Rightarrow> nat \<times> 'a entity_scheme list" where
  "table_bulkAdd [] t = (0, t)"
| "table_bulkAdd (r # rs) t =
     (case table_add r t of
        Inl e \<Rightarrow> (case table_bulkAdd rs t of (n, t') \<Rightarrow> (Suc n, t'))
      | Inr t' \<Rightarrow> table_bulkAdd rs t')"

definition table_delete :: "string \<Rightarrow> 'a entity_scheme list \<Rightarrow> 'a entity_scheme list" where
  "table_delete k t = filter (\<lambda>r. id' r \<noteq> k) t"

definition table_update ::
  "string \<Rightarrow> ('a entity_scheme \<Rightarrow> 'a entity_scheme) \<Rightarrow> 'a entity_scheme list \<Rightarrow> 'a entity_scheme list" where
  "table_update k change t = map (\<lambda>r. if id' r = k then change r else r) t"

definition table_clear :: "'a entity_scheme list \<Rightarrow> 'a entity_scheme list" where
  "table_clear t = []"

text \<open>\<open>db.memos.where('folderId').equals(k)\<close>: the memos whose \<open>folderId\<close> is \<open>k\<close>.\<close>

definition where_folderId_equals :: "string \<Rightarrow> memo \<Rightarrow> bool" where
  "where_folderId_equals k m = (folderId m = Some k)"

text \<open>What JavaScript takes for true in \<open>if (v)\<close> and \<open>v && e\<close>, for a string or \<open>undefined\<close>.\<close>

definition truthy :: "string option \<Rightarrow> bool" where
  "truthy v = (case v of None \<Rightarrow> False | Some s \<Rightarrow> s \<noteq> [])"

subsection \<open>Folders\<close>

definition getFolders :: "db \<Rightarrow> folder list outcome \<times> db" where
  "getFolders s = (Inr (toArray (folders s)), s)"

definition addFolder :: "string \<Rightarrow> timestamp \<Rightarrow> string \<Rightarrow> db \<Rightarrow> folder outcome \<times> db" where
  "addFolder gid now nm s =
     (let folder = \<lparr>id' = gid, createdAt = now, updatedAt = now, name = nm\<rparr>
      in case table_add folder (folders s) of
           Inl e \<Rightarrow> (Inl e, s)
         | Inr t \<Rightarrow> (Inr folder, s\<lparr>folders := t\<rparr>))"

text \<open>
  \<open>deleteFolder\<close> awaits two table operations one after the other. Each is a step of
  its own: between them the function is suspended and any other handler sees the
  database as the first step left it.
\<close>

definition deleteFolder_steps :: "string \<Rightarrow> (db \<Rightarrow> db) list" where
  "deleteFolder_steps fid =
     [\<lambda>s. s\<lparr>folders := table_delete fid (folders s)\<rparr>,
      \<lambda>s. s\<lparr>memos := filter (\<lambda>m. \<not> where_folderId_equals fid m) (memos s)\<rparr>]"

fun run_steps :: "('s \<Rightarrow> 's) list \<Rightarrow> 's \<Rightarrow> 's list" where
  "run_steps [] s = [s]"
| "run_steps (f # fs) s = s # run_steps fs (f s)"

definition deleteFolder :: "string \<Rightarrow> db \<Rightarrow> unit outcome \<times> db" where
  "deleteFolder fid s = (Inr (), last (run_steps (deleteFolder_steps fid) s))"

definition updateFolder :: "timestamp \<Rightarrow> string \<Rightarrow> string \<Rightarrow> db \<Rightarrow> unit outcome \<times> db" where
  "updateFolder now k nm s =
     (Inr (), s\<lparr>folders := table_update k (\<lambda>f. f\<lparr>name := nm, updatedAt := now\<rparr>) (folders s)\<rparr>)"

text \<open>
  \<open>updateFolderTimestamp\<close> is also called with \<open>memo.folderId\<close> of an object that has
  no such property; Dexie rejects a key that is \<open>undefined\<close>.
\<close>

definition updateFolderTimestamp :: "timestamp \<Rightarrow> string option \<Rightarrow> db \<Rightarrow> unit outcome \<times> db" where
  "updateFolderTimestamp now fid s =
     (case fid of
        None \<Rightarrow> (Inl InvalidKey, s)
      | Some k \<Rightarrow> (Inr (), s\<lparr>folders := table_update k (\<lambda>f. f\<lparr>updatedAt := now\<rparr>) (folders s)\<rparr>))"

subsection \<open>Memos\<close>

definition getMemos :: "db \<Rightarrow> memo list outcome \<times> db" where
  "getMemos s = (Inr (toArray (memos s)), s)"

text \<open>
  \<open>{id: this.generateId(), ...memo, createdAt: now, updatedAt: now}\<close>: a property
  written later replaces one written earlier, so \<open>id\<close> of the argument replaces the
  generated one and the two timestamps replace those of the argument.
\<close>

definition newMemo :: "string \<Rightarrow> timestamp \<Rightarrow> memo_input \<Rightarrow> memo" where
  "newMemo gid now m =
     \<lparr>id' = (case in_id m of Some i \<Rightarrow> i | None \<Rightarrow> gid),
      createdAt = now, updatedAt = now,
      folderId = in_folderId m, title = in_title m, content = in_content m\<rparr>"

definition addMemo :: "string \<Rightarrow> timestamp \<Rightarrow> timestamp \<Rightarrow> memo_input \<Rightarrow> db \<Rightarrow> memo outcome \<times> db" where
  "addMemo gid now now2 m s =
     (case table_add (newMemo gid now m) (memos s) of
        Inl e \<Rightarrow> (Inl e, s)
      | Inr t \<Rightarrow>
          (case updateFolderTimestamp now2 (in_folderId m) (s\<lparr>memos := t\<rparr>) of
             (Inl e, s') \<Rightarrow> (Inl e, s')
           | (Inr _, s') \<Rightarrow> (Inr (newMemo gid now m), s')))"

text \<open>\<open>{...updates, updatedAt: new Date().toISOString()}\<close>\<close>

definition updateData :: "timestamp \<Rightarrow> memo_updates \<Rightarrow> memo_updates" where
  "updateData now updates = updates\<lparr>upd_updatedAt := Some now\<rparr>"

text \<open>What \<open>Table.update\<close> does to the object it finds: each property of the changes is set.\<close>

definition apply_changes :: "memo_updates \<Rightarrow> memo \<Rightarrow> memo" where
  "apply_changes c m =
     m\<lparr>folderId := (case upd_folderId c of Some v \<Rightarrow> Some v | None \<Rightarrow> folderId m),
       title := (case upd_title c of Some v \<Rightarrow> Some v | None \<Rightarrow> title m),
       content := (case upd_content c of Some v \<Rightarrow> Some v | None \<Rightarrow> content m),
       createdAt := (case upd_createdAt c of Some v \<Rightarrow> v | None \<Rightarrow> createdAt m),
       updatedAt := (case upd_updatedAt c of Some v \<Rightarrow> v | None \<Rightarrow> updatedAt m)\<rparr>"

definition updateMemo :: "timestamp \<Rightarrow> timestamp \<Rightarrow> string \<Rightarrow> memo_updates \<Rightarrow> db \<Rightarrow> memo option outcome \<times> db" where
  "updateMemo now now2 k updates s =
     (let s1 = s\<lparr>memos := table_update k (apply_changes (updateData now updates)) (memos s)\<rparr>
      in case (if truthy (upd_folderId updates)
               then updateFolderTimestamp now2 (upd_folderId updates) s1
               else (Inr (), s1)) of
           (Inl e, s2) \<Rightarrow> (Inl e, s2)
         | (Inr _, s2) \<Rightarrow> (Inr (table_get k (memos s2)), s2))"

definition deleteMemo :: "string \<Rightarrow> db \<Rightarrow> unit outcome \<times> db" where
  "deleteMemo k s = (Inr (), s\<lparr>memos := table_delete k (memos s)\<rparr>)"

subsection \<open>Sorting and searching\<close>

text \<open>
  \<open>Array.prototype.sort\<close> with a comparison function: \<open>a\<close> comes before \<open>b\<close> when
  the function is negative at \<open>(a, b)\<close>, after it when positive, and the two keep
  their order when it is zero (the sort is stable).
\<close>

fun insert_by :: "('a \<Rightarrow> 'a \<Rightarrow> int) \<Rightarrow> 'a \<Rightarrow> 'a list \<Rightarrow> 'a list" where
  "insert_by cmp x [] = [x]"
| "insert_by cmp x (y # ys) = (if cmp x y \<le> 0 then x # y # ys else y # insert_by cmp x ys)"

definition array_sort :: "('a \<Rightarrow> 'a \<Rightarrow> int) \<Rightarrow> 'a list \<Rightarrow> 'a list" where
  "array_sort cmp xs = foldr (insert_by cmp) xs []"

text \<open>\<open>(a, b) => new Date(b.updatedAt) - new Date(a.updatedAt)\<close>\<close>

definition by_updatedAt :: "memo \<Rightarrow> memo \<Rightarrow> int" where
  "by_updatedAt a b = updatedAt b - updatedAt a"

definition getMemosByFolder :: "string \<Rightarrow> db \<Rightarrow> memo list outcome \<times> db" where
  "getMemosByFolder fid s =
     (Inr (array_sort by_updatedAt (filter (where_folderId_equals fid) (memos s))), s)"

text \<open>
  \<open>String.prototype.toLowerCase\<close> is the case mapping of Unicode as the engine has it;
  it is not part of the source. The functions that call it take it as their first
  argument, \<open>toLowerCase\<close>, and what is proved of them is proved for every such function.
\<close>

text \<open>
  \<open>String.prototype.includes\<close>: the argument occurs at some position of the string. For
  well-formed text an occurrence among the bytes of UTF-8 is an occurrence among the
  code units of the string.
\<close>

fun str_includes :: "string \<Rightarrow> string \<Rightarrow> bool" where
  "str_includes [] q = (q = [])"
| "str_includes (c # cs) q = (take (length q) (c # cs) = q \<or> str_includes cs q)"

text \<open>\<open>v && v.toLowerCase().includes(q)\<close> for a property \<open>v\<close> of a memo.\<close>

definition and_includes :: "(string \<Rightarrow> string) \<Rightarrow> string option \<Rightarrow> string \<Rightarrow> bool" where
  "and_includes toLowerCase v q =
     (case v of None \<Rightarrow> False | Some t \<Rightarrow> truthy (Some t) \<and> str_includes (toLowerCase t) q)"

definition searchMemos :: "(string \<Rightarrow> string) \<Rightarrow> string \<Rightarrow> db \<Rightarrow> memo list outcome \<times> db" where
  "searchMemos toLowerCase query s =
     (let q = toLowerCase query;
          ms = toArray (memos s)
      in (Inr (array_sort by_updatedAt
                 (filter (\<lambda>m. and_includes toLowerCase (title m) q \<or>
                              and_includes toLowerCase (content m) q) ms)), s))"

subsection \<open>Backup and restore\<close>

definition exportAllData :: "timestamp \<Rightarrow> db \<Rightarrow> backup outcome \<times> db" where
  "exportAllData now s =
     (case getFolders s of
        (Inl e, s1) \<Rightarrow> (Inl e, s1)
      | (Inr fs, s1) \<Rightarrow>
          (case getMemos s1 of
             (Inl e, s2) \<Rightarrow> (Inl e, s2)
           | (Inr ms, s2) \<Rightarrow>
               (Inr \<lparr>data_folders = Some fs, data_memos = Some ms, exportedAt = Some now\<rparr>, s2)))"

text \<open>\<open>if (xs && xs.length > 0) await table.bulkAdd(xs)\<close>: the failures and the table left.\<close>

fun bulkAdd_if_any :: "'a entity_scheme list option \<Rightarrow> 'a entity_scheme list \<Rightarrow> nat \<times> 'a entity_scheme list" where
  "bulkAdd_if_any None t = (0, t)"
| "bulkAdd_if_any (Some []) t = (0, t)"
| "bulkAdd_if_any (Some (r # rs)) t = table_bulkAdd (r # rs) t"

definition importData :: "backup \<Rightarrow> db \<Rightarrow> unit outcome \<times> db" where
  "importData data s =
     (let s1 = s\<lparr>folders := table_clear (folders s)\<rparr>;
          s2 = s1\<lparr>memos := table_clear (memos s1)\<rparr>
      in case bulkAdd_if_any (data_folders data) (folders s2) of
           (Suc n, t) \<Rightarrow> (Inl (BulkError (Suc n)), s2\<lparr>folders := t\<rparr>)
         | (0, t) \<Rightarrow>
             (let s3 = s2\<lparr>folders := t\<rparr>
              in case bulkAdd_if_any (data_memos data) (memos s3) of
                   (Suc n, t') \<Rightarrow> (Inl (BulkError (Suc n)), s3\<lparr>memos := t'\<rparr>)
                 | (0, t') \<Rightarrow> (Inr (), s3\<lparr>memos := t'\<rparr>)))"

definition clearAllData :: "db \<Rightarrow> unit outcome \<times> db" where
  "clearAllData s =
     (let s1 = s\<lparr>folders := table_clear (folders s)\<rparr>
      in (Inr (), s1\<lparr>memos := table_clear (memos s1)\<rparr>))"

subsection \<open>Well-formed databases\<close>

text \<open>
  The primary keys of a table are pairwise different and the table lists its objects
  by ascending key. Every function of \<open>Store\<close> keeps this.
\<close>

definition wf_table :: "'a entity_scheme list \<Rightarrow> bool" where
  "wf_table t = sorted_wrt (<) (map id' t)"

definition wf_db :: "db \<Rightarrow> bool" where
  "wf_db s = (wf_table (folders s) \<and> wf_table (memos s))"

subsection \<open>What the specification says, in its own words\<close>

text \<open>
  "Contains \<open>q\<close> as a case-insensitive substring": some stretch of the text is \<open>q\<close>
  letter for letter, two letters being the same when they differ in case at most. Which
  letters differ in case only is the relation \<open>same\<close>; it is given with the text and owes
  nothing to \<open>toLowerCase\<close>. A field that is missing contains nothing.
\<close>

definition is_substring :: "string \<Rightarrow> string \<Rightarrow> bool" where
  "is_substring q t = (\<exists>pre post. t = pre @ q @ post)"

definition ci_substring :: "(char \<Rightarrow> char \<Rightarrow> bool) \<Rightarrow> string \<Rightarrow> string \<Rightarrow> bool" where
  "ci_substring same q t = (\<exists>pre u post. t = pre @ u @ post \<and> list_all2 same u q)"

definition field_contains :: "(char \<Rightarrow> char \<Rightarrow> bool) \<Rightarrow> string \<Rightarrow> string option \<Rightarrow> bool" where
  "field_contains same q v = (case v of None \<Rightarrow> False | Some t \<Rightarrow> ci_substring same q t)"

text \<open>
  The amended claims speak of a field that is there, is not empty, and once lowered
  includes the lowered query.
\<close>

definition lowered_contains :: "(string \<Rightarrow> string) \<Rightarrow> string \<Rightarrow> string option \<Rightarrow> bool" where
  "lowered_contains toLowerCase q v =
     (\<exists>t. v = Some t \<and> t \<noteq> [] \<and> is_substring (toLowerCase q) (toLowerCase t))"

text \<open>
  The fields of a search are the titles and contents of the memos. On them and on the
  query \<open>toLowerCase\<close> works letter by letter when it lowers each letter by itself,
  with \<open>lc\<close>, and \<open>lc\<close> takes a letter of a field and a letter of the query to one
  letter exactly when they are the same letter.
\<close>

definition fields :: "db \<Rightarrow> string set" where
  "fields s = (\<Union>m\<in>set (memos s). set_option (title m) \<union> set_option (content m))"

definition letter_by_letter ::
  "(string \<Rightarrow> string) \<Rightarrow> (char \<Rightarrow> char) \<Rightarrow> (char \<Rightarrow> char \<Rightarrow> bool) \<Rightarrow> string \<Rightarrow> string set \<Rightarrow> bool" where
  "letter_by_letter toLowerCase lc same q X =
     ((\<forall>x\<in>insert q X. toLowerCase x = map lc x) \<and>
      (\<forall>t\<in>X. \<forall>c\<in>set t. \<forall>d\<in>set q. (lc c = lc d) = same c d))"

text \<open>"Sorted by \<open>updatedAt\<close> descending".\<close>

definition newest_first :: "memo list \<Rightarrow> bool" where
  "newest_first ms = sorted_wrt (\<lambda>a b. updatedAt b \<le> updatedAt a) ms"

subsection \<open>Lowering two kinds of text\<close>

text \<open>
  What \<open>toLowerCase\<close> does to a text of ASCII characters: the letters \<open>A\<close> to \<open>Z\<close>
  become \<open>a\<close> to \<open>z\<close>. The texts of the example below are of this kind. Beside it,
  the letters of ASCII that differ in case only, from the alphabet itself.
\<close>

definition toLowerCase_ascii_char :: "char \<Rightarrow> char" where
  "toLowerCase_ascii_char c =
     (if CHR ''A'' \<le> c \<and> c \<le> CHR ''Z'' then char_of (of_char c + (32::nat)) else c)"

definition toLowerCase_ascii :: "string \<Rightarrow> string" where
  "toLowerCase_ascii s = map toLowerCase_ascii_char s"

definition same_ascii_letter :: "char \<Rightarrow> char \<Rightarrow> bool" where
  "same_ascii_letter c d =
     (c = d \<or>
      (c, d) \<in> set (zip ''ABCDEFGHIJKLMNOPQRSTUVWXYZ'' ''abcdefghijklmnopqrstuvwxyz'') \<or>
      (d, c) \<in> set (zip ''ABCDEFGHIJKLMNOPQRSTUVWXYZ'' ''abcdefghijklmnopqrstuvwxyz''))"






subsection \<open>A small database to run the functions on\<close>

definition work :: folder where
  "work = \<lparr>id' = ''f1'', createdAt = 1, updatedAt = 1, name = ''Work''\<rparr>"

definition home :: folder where
  "home = \<lparr>id' = ''f2'', createdAt = 2, updatedAt = 2, name = ''Home''\<rparr>"

definition plan :: memo where
  "plan = \<lparr>id' = ''m1'', createdAt = 3, updatedAt = 3,
            folderId = Some ''f1'', title = Some ''Plan'', content = Some ''buy milk''\<rparr>"

definition blank :: memo where
  "blank = \<lparr>id' = ''m2'', createdAt = 4, updatedAt = 4,
             folderId = Some ''f1'', title = None, content = Some []\<rparr>"

definition dairy :: memo where
  "dairy = \<lparr>id' = ''m3'', createdAt = 5, updatedAt = 5,
             folderId = Some ''f2'', title = Some ''MILK'', content = None\<rparr>"

definition example_db :: db where
  "example_db = \<lparr>folders = [work, home], memos = [plan, blank, dairy]\<rparr>"

text \<open>Arguments for \<open>updateMemo\<close> and \<open>addMemo\<close>.\<close>

definition retitle :: memo_updates where
  "retitle = \<lparr>upd_folderId = None, upd_title = Some ''Plan B'', upd_content = None,
              upd_createdAt = None, upd_updatedAt = None\<rparr>"

definition move_home :: memo_updates where
  "move_home = \<lparr>upd_folderId = Some ''f2'', upd_title = None, upd_content = None,
                upd_createdAt = None, upd_updatedAt = None\<rparr>"

definition backdate :: memo_updates where
  "backdate = \<lparr>upd_folderId = None, upd_title = None, upd_content = None,
               upd_createdAt = Some 0, upd_updatedAt = Some 0\<rparr>"

definition note_input :: memo_input where
  "note_input = \<lparr>in_id = None, in_folderId = Some ''f2'', in_title = Some ''T'', in_content = None,
                 in_createdAt = Some 0, in_updatedAt = Some 0\<rparr>"



text \<open>Two backups.\<close>

definition twice_work :: backup where
  "twice_work = \<lparr>data_folders = Some [work, work], data_memos = Some [plan], exportedAt = None\<rparr>"

definition orphan :: backup where
  "orphan = \<lparr>data_folders = Some [home], data_memos = Some [dairy, plan], exportedAt = None\<rparr>"

section \<open>Lemmas about tables, sorting and strings\<close>

lemma set_insert_by: "set (insert_by cmp x ys) = insert x (set ys)"
  by (induction ys) auto

lemma mset_insert_by: "mset (insert_by cmp x ys) = add_mset x (mset ys)"
  by (induction ys) auto

lemma mset_array_sort: "mset (array_sort cmp xs) = mset xs"
  by (induction xs) (auto simp: array_sort_def mset_insert_by)

lemma newest_first_insert_by:
  "newest_first ys \<Longrightarrow> newest_first (insert_by by_updatedAt x ys)"
  by (induction ys) (auto simp: newest_first_def by_updatedAt_def set_insert_by)

lemma newest_first_array_sort: "newest_first (array_sort by_updatedAt xs)"
proof (induction xs)
  case Nil
  show ?case by (simp add: array_sort_def newest_first_def)
next
  case (Cons x xs)
  then show ?case using newest_first_insert_by [of "array_sort by_updatedAt xs" x]
    by (simp add: array_sort_def)
qed

lemma str_includes_iff: "str_includes s q \<longleftrightarrow> (\<exists>pre post. s = pre @ q @ post)"
proof (induction s)
  case Nil
  show ?case by auto
next
  case (Cons c cs)
  show ?case
  proof
    assume "str_includes (c # cs) q"
    then consider "take (length q) (c # cs) = q" | "str_includes cs q" by auto
    then show "\<exists>pre post. c # cs = pre @ q @ post"
    proof cases
      case 1
      then have "c # cs = [] @ q @ drop (length q) (c # cs)"
        by (metis append_Nil append_take_drop_id)
      then show ?thesis by blast
    next
      case 2
      then obtain pre post where "cs = pre @ q @ post" using Cons.IH by auto
      then have "c # cs = (c # pre) @ q @ post" by simp
      then show ?thesis by blast
    qed
  next
    assume "\<exists>pre post. c # cs = pre @ q @ post"
    then obtain pre post where eq: "c # cs = pre @ q @ post" by auto
    show "str_includes (c # cs) q"
    proof (cases pre)
      case Nil
      with eq have "take (length q) (c # cs) = q" by simp
      then show ?thesis by simp
    next
      case (Cons p pre')
      with eq have "cs = pre' @ q @ post" by simp
      then have "str_includes cs q" using Cons.IH by blast
      then show ?thesis by simp
    qed
  qed
qed

lemma table_get_None_iff: "table_get k t = None \<longleftrightarrow> k \<notin> id' ` set t"
  by (auto simp: table_get_def find_None_iff)

lemma table_get_insort:
  "table_get (id' r) t = None \<Longrightarrow>
   table_get k (insort_key id' r t) = (if k = id' r then Some r else table_get k t)"
  by (induction t) (auto simp: table_get_def)

lemma table_get_update:
  assumes "\<And>r. id' (change r) = id' r"
  shows "table_get k (table_update j change t) =
         (if k = j then map_option change (table_get k t) else table_get k t)"
  using assms by (induction t) (auto simp: table_get_def table_update_def)

lemma insort_key_last:
  "\<forall>x\<in>set t. id' x < id' r \<Longrightarrow> insort_key id' r t = t @ [r]"
  by (induction t) auto

lemma wf_table_insort:
  "wf_table t \<Longrightarrow> table_get (id' r) t = None \<Longrightarrow> wf_table (insort_key id' r t)"
  unfolding wf_table_def table_get_None_iff
  by (induction t) (auto simp: set_insort_key less_le)

lemma wf_table_filter: "wf_table t \<Longrightarrow> wf_table (filter P t)"
  unfolding wf_table_def by (induction t) auto

lemma wf_table_update:
  assumes "\<And>r. id' (change r) = id' r"
  shows "wf_table (table_update k change t) = wf_table t"
proof -
  have "map id' (table_update k change t) = map id' t"
    using assms by (induction t) (auto simp: table_update_def)
  then show ?thesis by (simp add: wf_table_def)
qed

lemma table_bulkAdd_sorted:
  "wf_table (acc @ rs) \<Longrightarrow> table_bulkAdd rs acc = (0, acc @ rs)"
proof (induction rs arbitrary: acc)
  case Nil
  show ?case by simp
next
  case (Cons r rs)
  from Cons.prems have lt: "\<forall>x\<in>set acc. id' x < id' r"
    by (auto simp: wf_table_def sorted_wrt_append)
  then have none: "table_get (id' r) acc = None"
    by (auto simp: table_get_None_iff)
  have ins: "insort_key id' r acc = acc @ [r]" using lt by (rule insort_key_last)
  from Cons.prems have "wf_table ((acc @ [r]) @ rs)" by simp
  then have "table_bulkAdd rs (acc @ [r]) = (0, (acc @ [r]) @ rs)" by (rule Cons.IH)
  then show ?case using none ins by (simp add: table_add_def)
qed

lemma table_bulkAdd_distinct:
  "distinct (map id' rs) \<Longrightarrow> id' ` set rs \<inter> id' ` set acc = {} \<Longrightarrow>
   \<exists>t. table_bulkAdd rs acc = (0, t) \<and> mset t = mset acc + mset rs"
proof (induction rs arbitrary: acc)
  case Nil
  show ?case by simp
next
  case (Cons r rs)
  from Cons.prems have none: "table_get (id' r) acc = None"
    by (auto simp: table_get_None_iff)
  from Cons.prems have "distinct (map id' rs)" 
    and "id' ` set rs \<inter> id' ` set (insort_key id' r acc) = {}"
    by (auto simp: set_insort_key)
  then obtain t where "table_bulkAdd rs (insort_key id' r acc) = (0, t)"
    and "mset t = mset (insort_key id' r acc) + mset rs"
    using Cons.IH by blast
  then show ?case using none by (simp add: table_add_def)
qed

lemma wf_table_bulkAdd:
  "wf_table acc \<Longrightarrow> wf_table (snd (table_bulkAdd rs acc))"
proof (induction rs arbitrary: acc)
  case Nil
  then show ?case by simp
next
  case (Cons r rs)
  show ?case
  proof (cases "table_get (id' r) acc")
    case None
    then show ?thesis using Cons by (simp add: table_add_def wf_table_insort)
  next
    case (Some a)
    have "wf_table (snd (table_bulkAdd rs acc))" using Cons by blast
    then show ?thesis using Some
      by (cases "table_bulkAdd rs acc") (simp add: table_add_def)
  qed
qed

lemma table_update_absent: "table_get k t = None \<Longrightarrow> table_update k change t = t"
  unfolding table_get_None_iff table_update_def by (induction t) auto

lemma addMemo_taken:
  "table_get (id' (newMemo gid now m)) (memos s) = Some p \<Longrightarrow>
   addMemo gid now now2 m s = (Inl ConstraintError, s)"
  by (simp add: addMemo_def table_add_def)

lemma addMemo_memos:
  "table_get (id' (newMemo gid now m)) (memos s) = None \<Longrightarrow>
   memos (snd (addMemo gid now now2 m s)) = insort_key id' (newMemo gid now m) (memos s)"
  by (simp add: addMemo_def table_add_def updateFolderTimestamp_def split: option.splits)

lemma addMemo_Inr:
  "addMemo gid now now2 m s = (Inr nm, s') \<Longrightarrow>
   nm = newMemo gid now m \<and> table_get (id' (newMemo gid now m)) (memos s) = None \<and>
   (\<exists>F. in_folderId m = Some F \<and>
        folders s' = table_update F (\<lambda>f. f\<lparr>updatedAt := now2\<rparr>) (folders s))"
  by (auto simp: addMemo_def table_add_def updateFolderTimestamp_def
           split: option.splits sum.splits prod.splits)

lemma id'_apply_changes: "id' (apply_changes c m) = id' m"
  by (simp add: apply_changes_def)

lemma updateMemo_memos:
  "memos (snd (updateMemo now now2 k u s)) =
   table_update k (apply_changes (updateData now u)) (memos s)"
  by (cases "upd_folderId u")
     (simp_all add: updateMemo_def Let_def updateFolderTimestamp_def truthy_def)

lemma updateMemo_fst:
  "fst (updateMemo now now2 k u s) =
   Inr (table_get k (table_update k (apply_changes (updateData now u)) (memos s)))"
  by (cases "upd_folderId u")
     (simp_all add: updateMemo_def Let_def updateFolderTimestamp_def truthy_def)

lemma updateMemo_folders:
  "folders (snd (updateMemo now now2 k u s)) =
   (if truthy (upd_folderId u)
    then table_update (the (upd_folderId u)) (\<lambda>f. f\<lparr>updatedAt := now2\<rparr>) (folders s)
    else folders s)"
  by (cases "upd_folderId u")
     (simp_all add: updateMemo_def Let_def updateFolderTimestamp_def truthy_def)

lemma is_substring_map:
  "is_substring (map f q) (map f t) \<longleftrightarrow> (\<exists>pre u post. t = pre @ u @ post \<and> map f u = map f q)"
proof
  assume "is_substring (map f q) (map f t)"
  then obtain a b where "map f t = a @ map f q @ b" by (auto simp: is_substring_def)
  then have "\<exists>pre r. t = pre @ r \<and> a = map f pre \<and> map f q @ b = map f r"
    by (simp add: map_eq_append_conv)
  then obtain pre r where t: "t = pre @ r" and "map f r = map f q @ b" by auto
  then have "\<exists>u post. r = u @ post \<and> map f q = map f u \<and> b = map f post"
    by (simp add: map_eq_append_conv)
  then obtain u post where r: "r = u @ post" and "map f u = map f q" by auto
  with t show "\<exists>pre u post. t = pre @ u @ post \<and> map f u = map f q" by blast
next
  assume "\<exists>pre u post. t = pre @ u @ post \<and> map f u = map f q"
  then obtain pre u post where "t = pre @ u @ post" and "map f u = map f q" by blast
  then have "map f t = map f pre @ map f q @ map f post" by simp
  then show "is_substring (map f q) (map f t)" unfolding is_substring_def by blast
qed

lemma map_eq_list_all2: "map f u = map f q \<longleftrightarrow> list_all2 (\<lambda>c d. f c = f d) u q"
proof -
  have "map f u = map f q \<longleftrightarrow> list_all2 (=) (map f u) (map f q)"
    by (simp add: list.rel_eq)
  then show ?thesis by (simp add: list_all2_map1 list_all2_map2)
qed

lemma lowered_is_ci_substring:
  assumes "letter_by_letter toLowerCase lc same q X" and "t \<in> X"
  shows "is_substring (toLowerCase q) (toLowerCase t) \<longleftrightarrow> ci_substring same q t"
proof -
  from assms have low: "toLowerCase q = map lc q" "toLowerCase t = map lc t"
    by (simp_all add: letter_by_letter_def)
  from assms have same: "(lc c = lc d) = same c d" if "c \<in> set t" and "d \<in> set q" for c d
    using that by (simp add: letter_by_letter_def)
  have "list_all2 (\<lambda>c d. lc c = lc d) u q \<longleftrightarrow> list_all2 same u q" if "t = pre @ u @ post"
    for pre u post
  proof
    assume "list_all2 (\<lambda>c d. lc c = lc d) u q"
    then show "list_all2 same u q"
      by (rule list.rel_mono_strong) (simp add: same that)
  next
    assume "list_all2 same u q"
    then show "list_all2 (\<lambda>c d. lc c = lc d) u q"
      by (rule list.rel_mono_strong) (simp add: same that)
  qed
  then have "(\<exists>pre u post. t = pre @ u @ post \<and> map lc u = map lc q) \<longleftrightarrow>
             (\<exists>pre u post. t = pre @ u @ post \<and> list_all2 same u q)"
    unfolding map_eq_list_all2 by blast
  then show ?thesis by (simp add: low is_substring_map ci_substring_def)
qed

lemma ci_substring_Nil: "ci_substring same q [] \<longleftrightarrow> q = []"
  by (auto simp: ci_substring_def)

lemma and_includes_lowered:
  "and_includes toLowerCase v (toLowerCase q) \<longleftrightarrow> lowered_contains toLowerCase q v"
  by (cases v)
     (auto simp: and_includes_def truthy_def lowered_contains_def is_substring_def str_includes_iff)

lemma lowered_contains_field:
  assumes "letter_by_letter toLowerCase lc same q X" and "set_option v \<subseteq> X"
  shows "lowered_contains toLowerCase q v \<Longrightarrow> field_contains same q v"
    and "q \<noteq> [] \<Longrightarrow> field_contains same q v \<Longrightarrow> lowered_contains toLowerCase q v"
proof -
  show "field_contains same q v" if "lowered_contains toLowerCase q v"
  proof -
    from that obtain t where t: "v = Some t" "is_substring (toLowerCase q) (toLowerCase t)"
      by (auto simp: lowered_contains_def)
    with assms(2) have "t \<in> X" by simp
    with t assms(1) show ?thesis by (simp add: field_contains_def lowered_is_ci_substring)
  qed
  show "lowered_contains toLowerCase q v" if "q \<noteq> []" and "field_contains same q v"
  proof -
    from that(2) obtain t where t: "v = Some t" "ci_substring same q t"
      by (auto simp: field_contains_def split: option.splits)
    with assms(2) have "t \<in> X" by simp
    moreover from t that(1) have "t \<noteq> []" by (auto simp: ci_substring_Nil)
    ultimately show ?thesis
      using t assms(1) by (simp add: lowered_contains_def lowered_is_ci_substring)
  qed
qed

lemma field_in_fields:
  "m \<in> set (memos s) \<Longrightarrow> set_option (title m) \<subseteq> fields s \<and> set_option (content m) \<subseteq> fields s"
  by (auto simp: fields_def)

lemma searchMemos_eq:
  "searchMemos toLowerCase query s =
   (Inr (array_sort by_updatedAt
           (filter (\<lambda>m. lowered_contains toLowerCase query (title m) \<or>
                        lowered_contains toLowerCase query (content m)) (memos s))), s)"
  by (simp add: searchMemos_def Let_def toArray_def and_includes_lowered)

lemma lowered_contains_Nil:
  "toLowerCase [] = [] \<Longrightarrow> lowered_contains toLowerCase [] v = truthy v"
  by (cases v) (auto simp: lowered_contains_def truthy_def is_substring_def)

lemma table_get_touch:
  "table_get k (table_update F (\<lambda>f. f\<lparr>updatedAt := t\<rparr>) fs) =
   (if k = F then map_option (\<lambda>f. f\<lparr>updatedAt := t\<rparr>) (table_get k fs) else table_get k fs)"
  by (rule table_get_update) simp

lemma bulkAdd_if_any_Some: "bulkAdd_if_any (Some rs) t = table_bulkAdd rs t"
  by (cases rs) simp_all

lemma importData_Some:
  "importData \<lparr>data_folders = Some fs, data_memos = Some ms, exportedAt = e\<rparr> s =
   (case table_bulkAdd fs [] of
      (Suc n, t) \<Rightarrow> (Inl (BulkError (Suc n)), \<lparr>folders = t, memos = []\<rparr>)
    | (0, t) \<Rightarrow>
        (case table_bulkAdd ms [] of
           (Suc n, t') \<Rightarrow> (Inl (BulkError (Suc n)), \<lparr>folders = t, memos = t'\<rparr>)
         | (0, t') \<Rightarrow> (Inr (), \<lparr>folders = t, memos = t'\<rparr>)))"
  by (simp add: importData_def Let_def table_clear_def bulkAdd_if_any_Some
           split: prod.splits nat.splits)

lemma exportAllData_eq:
  "exportAllData now s =
     (Inr \<lparr>data_folders = Some (folders s), data_memos = Some (memos s), exportedAt = Some now\<rparr>, s)"
  by (simp add: exportAllData_def getFolders_def getMemos_def toArray_def)

subsection \<open>Every function of the store keeps the tables well formed\<close>

text \<open>
  The empty database is well formed and each function of \<open>Store\<close> leaves a well-formed
  database well formed, whatever its arguments and whether it succeeds or not; after
  \<open>importData\<close> and \<open>clearAllData\<close> the database is well formed whatever it was.
\<close>

lemma wf_Nil: "wf_table []"
  by (simp add: wf_table_def)

lemma wf_table_delete: "wf_table t \<Longrightarrow> wf_table (table_delete k t)"
  by (simp add: table_delete_def wf_table_filter)

lemma wf_table_add: "wf_table t \<Longrightarrow> table_add r t = Inr t' \<Longrightarrow> wf_table t'"
  by (auto simp: table_add_def wf_table_insort split: option.splits)

lemma wf_db_empty: "wf_db \<lparr>folders = [], memos = []\<rparr>"
  by (simp add: wf_db_def wf_table_def)

lemma wf_db_addFolder: "wf_db s \<Longrightarrow> wf_db (snd (addFolder gid now nm s))"
  by (auto simp: addFolder_def Let_def wf_db_def wf_table_add split: sum.splits)

lemma wf_db_deleteFolder: "wf_db s \<Longrightarrow> wf_db (snd (deleteFolder k s))"
  by (simp add: deleteFolder_def deleteFolder_steps_def wf_db_def wf_table_delete wf_table_filter)

lemma wf_db_updateFolder: "wf_db s \<Longrightarrow> wf_db (snd (updateFolder now k nm s))"
  by (simp add: updateFolder_def wf_db_def wf_table_update)

lemma wf_db_updateFolderTimestamp: "wf_db s \<Longrightarrow> wf_db (snd (updateFolderTimestamp now fid s))"
  by (simp add: updateFolderTimestamp_def wf_db_def wf_table_update split: option.splits)

lemma wf_db_addMemo: 
  assumes "wf_db s" shows "wf_db (snd (addMemo gid now now2 m s))"
proof (cases "table_get (id' (newMemo gid now m)) (memos s)")
  case None
  have f: "wf_table (folders (snd (addMemo gid now now2 m s)))"
    using assms None
    by (simp add: addMemo_def table_add_def updateFolderTimestamp_def wf_db_def wf_table_update
             split: option.splits)
  show ?thesis using assms f by (simp add: wf_db_def addMemo_memos [OF None] wf_table_insort [OF _ None])
next
  case (Some p)
  then show ?thesis using assms by (simp add: addMemo_taken)
qed

lemma wf_db_updateMemo: "wf_db s \<Longrightarrow> wf_db (snd (updateMemo now now2 k u s))"
  by (simp add: wf_db_def updateMemo_memos updateMemo_folders wf_table_update id'_apply_changes)

lemma wf_db_deleteMemo: "wf_db s \<Longrightarrow> wf_db (snd (deleteMemo k s))"
  by (simp add: deleteMemo_def wf_db_def wf_table_delete)

lemma wf_db_clearAllData: "wf_db (snd (clearAllData s))"
  by (simp add: clearAllData_def Let_def table_clear_def wf_db_def wf_table_def)

lemma wf_bulkAdd_if_any: "wf_table t \<Longrightarrow> wf_table (snd (bulkAdd_if_any v t))"
proof (cases v)
  case None
  assume "wf_table t" then show ?thesis using None by simp
next
  case (Some rs)
  assume "wf_table t" then show ?thesis using Some by (simp add: bulkAdd_if_any_Some wf_table_bulkAdd)
qed

lemma wf_db_importData: "wf_db (snd (importData data s))"
proof -
  obtain n t where f: "bulkAdd_if_any (data_folders data) [] = (n, t)" by fastforce
  obtain n' t' where m: "bulkAdd_if_any (data_memos data) [] = (n', t')" by fastforce
  have "wf_table t" using wf_bulkAdd_if_any [OF wf_Nil, of "data_folders data"] f by simp
  moreover have "wf_table t'" using wf_bulkAdd_if_any [OF wf_Nil, of "data_memos data"] m by simp
  ultimately show ?thesis using f m
    by (cases n; cases n') (simp_all add: importData_def Let_def table_clear_def wf_db_def wf_Nil)
qed

subsection \<open>Runs on the example\<close>


lemma search_empty: "searchMemos toLowerCase_ascii [] example_db = (Inr [dairy, plan], example_db)"
  by code_simp



lemma letters_zzz:
  "letter_by_letter toLowerCase_ascii toLowerCase_ascii_char same_ascii_letter ''zzz'' (fields example_db)"
  by code_simp

lemma no_zzz:
  "\<not> and_includes toLowerCase_ascii (title plan) (toLowerCase_ascii ''zzz'')"
  "\<not> and_includes toLowerCase_ascii (content plan) (toLowerCase_ascii ''zzz'')"
  "\<not> and_includes toLowerCase_ascii (title blank) (toLowerCase_ascii ''zzz'')"
  "\<not> and_includes toLowerCase_ascii (content blank) (toLowerCase_ascii ''zzz'')"
  "\<not> and_includes toLowerCase_ascii (title dairy) (toLowerCase_ascii ''zzz'')"
  "\<not> and_includes toLowerCase_ascii (content dairy) (toLowerCase_ascii ''zzz'')"
  by code_simp+

lemma run_retitle:
  "updateMemo 10 11 ''m1'' retitle example_db =
     (Inr (Some (plan\<lparr>title := Some ''Plan B'', updatedAt := 10\<rparr>)),
      \<lparr>folders = [work, home],
       memos = [plan\<lparr>title := Some ''Plan B'', updatedAt := 10\<rparr>, blank, dairy]\<rparr>)"
  by code_simp

lemma run_backdate:
  "updateMemo 10 11 ''m1'' backdate example_db =
     (Inr (Some (plan\<lparr>createdAt := 0, updatedAt := 10\<rparr>)),
      \<lparr>folders = [work, home],
       memos = [plan\<lparr>createdAt := 0, updatedAt := 10\<rparr>, blank, dairy]\<rparr>)"
  by code_simp

lemma run_note_input:
  "addMemo ''g1'' 10 11 note_input example_db =
     (Inr \<lparr>id' = ''g1'', createdAt = 10, updatedAt = 10,
           folderId = Some ''f2'', title = Some ''T'', content = None\<rparr>,
      \<lparr>folders = [work, home\<lparr>updatedAt := 11\<rparr>],
       memos = [\<lparr>id' = ''g1'', createdAt = 10, updatedAt = 10,
                 folderId = Some ''f2'', title = Some ''T'', content = None\<rparr>, plan, blank, dairy]\<rparr>)"
  by code_simp

lemma example_lookups:
  "table_get ''m1'' (memos example_db) = Some plan"
  "table_get ''g1'' (memos example_db) = None"
  "table_get ''f1'' (folders example_db) = Some work"
  "table_get ''f2'' (folders example_db) = Some home"
  by code_simp+

lemma run_twice_work:
  "importData twice_work example_db = (Inl (BulkError 1), \<lparr>folders = [work], memos = []\<rparr>)"
  by code_simp

lemma wf_example_db: "wf_db example_db"
  by code_simp

section \<open>The claims\<close>

subsection \<open>Deleting a folder\<close>

text \<open>
  Claim C1. Once \<open>deleteFolder(F)\<close> has completed, no memo whose \<open>folderId\<close> is \<open>F\<close> is
  left in the store, however many there were, and \<open>F\<close> is not among the folders that
  \<open>getFolders()\<close> returns afterwards.
\<close>

theorem deleteFolder_cascade:
  assumes "deleteFolder F s = (r, s')"
  shows "r = Inr () \<and> filter (where_folderId_equals F) (memos s') = [] \<and>
         (\<forall>m\<in>set (memos s'). folderId m \<noteq> Some F) \<and>
         (\<exists>fs. fst (getFolders s') = Inr fs \<and> F \<notin> id' ` set fs)"
  using assms
  by (auto simp: deleteFolder_def deleteFolder_steps_def getFolders_def toArray_def
                 table_delete_def where_folderId_equals_def filter_empty_conv)

theorem deleteFolder_cascade_witness:
  "''f1'' \<in> id' ` set (folders example_db) \<and>
   length (filter (where_folderId_equals ''f1'') (memos example_db)) = 2 \<and>
   deleteFolder ''f1'' example_db = (Inr (), \<lparr>folders = [home], memos = [dairy]\<rparr>) \<and>
   filter (where_folderId_equals ''f1'') [dairy] = [] \<and>
   fst (getFolders \<lparr>folders = [home], memos = [dairy]\<rparr>) = Inr [home] \<and> ''f1'' \<notin> id' ` set [home]"
proof -
  have run: "deleteFolder ''f1'' example_db = (Inr (), \<lparr>folders = [home], memos = [dairy]\<rparr>)"
    by (simp add: deleteFolder_def deleteFolder_steps_def table_delete_def
                  where_folderId_equals_def example_db_def work_def home_def plan_def
                  blank_def dairy_def)
  have before: "''f1'' \<in> id' ` set (folders example_db) \<and>
      length (filter (where_folderId_equals ''f1'') (memos example_db)) = 2"
    by (simp add: where_folderId_equals_def example_db_def work_def home_def plan_def
                  blank_def dairy_def)
  show ?thesis
    using deleteFolder_cascade [OF run] run before
    by (auto simp: getFolders_def toArray_def)
qed

subsection \<open>Updating a memo that is not there\<close>

text \<open>
  Claim C6. When no memo has the id, \<open>updateMemo(id, updates)\<close> hands the caller
  \<open>undefined\<close>, which no memo is, and leaves the table of memos as it was, whatever the
  updates are.
\<close>

theorem updateMemo_missing_id:
  assumes "table_get k (memos s) = None"
    and "updateMemo now now2 k updates s = (r, s')"
  shows "r = Inr None \<and> memos s' = memos s"
proof -
  have upd: "table_update k (apply_changes (updateData now updates)) (memos s) = memos s"
    using assms(1) by (rule table_update_absent)
  have "fst (updateMemo now now2 k updates s) = Inr None"
    using assms(1) by (simp add: updateMemo_fst upd)
  moreover have "memos (snd (updateMemo now now2 k updates s)) = memos s"
    by (simp add: updateMemo_memos upd)
  ultimately show ?thesis using assms(2) by simp
qed

theorem updateMemo_missing_id_witness:
  "table_get ''m9'' (memos example_db) = None \<and>
   fst (updateMemo 10 11 ''m9''
     \<lparr>upd_folderId = Some ''f2'', upd_title = Some ''x'', upd_content = None,
      upd_createdAt = None, upd_updatedAt = None\<rparr> example_db) = Inr None \<and>
   memos (snd (updateMemo 10 11 ''m9''
     \<lparr>upd_folderId = Some ''f2'', upd_title = Some ''x'', upd_content = None,
      upd_createdAt = None, upd_updatedAt = None\<rparr> example_db)) = [plan, blank, dairy]"
proof -
  have absent: "table_get ''m9'' (memos example_db) = None"
    by (simp add: table_get_def example_db_def plan_def blank_def dairy_def)
  show ?thesis
    using absent updateMemo_missing_id [OF absent surjective_pairing]
    by (simp add: example_db_def)
qed

subsection \<open>The id of a new memo\<close>

text \<open>
  Claim C10. When the object passed to \<open>addMemo\<close> has an \<open>id\<close>, the memo is stored under
  that id and carries it, not the generated one; when it has none, the memo is stored
  under the generated id. The memo the call returns is the stored one.
\<close>

theorem addMemo_id_from_caller:
  assumes "addMemo gid now now2 m s = (r, s')"
  shows "(\<forall>i. in_id m = Some i \<longrightarrow> table_get i (memos s) = None \<longrightarrow>
            (\<exists>p. table_get i (memos s') = Some p \<and> id' p = i \<and> p = newMemo gid now m) \<and>
            (gid \<noteq> i \<longrightarrow> table_get gid (memos s') = table_get gid (memos s))) \<and>
         (in_id m = None \<longrightarrow> table_get gid (memos s) = None \<longrightarrow>
            (\<exists>p. table_get gid (memos s') = Some p \<and> id' p = gid \<and> p = newMemo gid now m)) \<and>
         (\<forall>nm. r = Inr nm \<longrightarrow>
            id' nm = (case in_id m of Some i \<Rightarrow> i | None \<Rightarrow> gid) \<and>
            table_get (id' nm) (memos s') = Some nm)"
proof -
  have key: "id' (newMemo gid now m) = (case in_id m of Some i \<Rightarrow> i | None \<Rightarrow> gid)"
    by (simp add: newMemo_def)
  have stored: "table_get (id' (newMemo gid now m)) (memos s') = Some (newMemo gid now m)"
    if "table_get (id' (newMemo gid now m)) (memos s) = None"
    using addMemo_memos [OF that, of now2] assms table_get_insort [OF that] by simp
  have other: "table_get j (memos s') = table_get j (memos s)"
    if "table_get (id' (newMemo gid now m)) (memos s) = None" and "j \<noteq> id' (newMemo gid now m)"
    for j
    using addMemo_memos [OF that(1), of now2] assms table_get_insort [OF that(1), of j] that(2)
    by simp
  have ret: "nm = newMemo gid now m \<and> table_get (id' (newMemo gid now m)) (memos s) = None"
    if "r = Inr nm" for nm
    using addMemo_Inr [of gid now now2 m s nm s'] assms that by simp
  have a: "\<forall>i. in_id m = Some i \<longrightarrow> table_get i (memos s) = None \<longrightarrow>
            (\<exists>p. table_get i (memos s') = Some p \<and> id' p = i \<and> p = newMemo gid now m) \<and>
            (gid \<noteq> i \<longrightarrow> table_get gid (memos s') = table_get gid (memos s))"
  proof (intro allI impI)
    fix i
    assume "in_id m = Some i" and free: "table_get i (memos s) = None"
    then have i: "id' (newMemo gid now m) = i" using key by simp
    have "\<exists>p. table_get i (memos s') = Some p \<and> id' p = i \<and> p = newMemo gid now m"
      using i free stored by simp
    moreover have "gid \<noteq> i \<longrightarrow> table_get gid (memos s') = table_get gid (memos s)"
      using i free other [of gid] by simp
    ultimately show
      "(\<exists>p. table_get i (memos s') = Some p \<and> id' p = i \<and> p = newMemo gid now m) \<and>
       (gid \<noteq> i \<longrightarrow> table_get gid (memos s') = table_get gid (memos s))"
      by (rule conjI)
  qed
  have b: "in_id m = None \<longrightarrow> table_get gid (memos s) = None \<longrightarrow>
            (\<exists>p. table_get gid (memos s') = Some p \<and> id' p = gid \<and> p = newMemo gid now m)"
  proof (intro impI)
    assume "in_id m = None" and free: "table_get gid (memos s) = None"
    then have i: "id' (newMemo gid now m) = gid" using key by simp
    with free stored show
      "\<exists>p. table_get gid (memos s') = Some p \<and> id' p = gid \<and> p = newMemo gid now m"
      by simp
  qed
  have c: "\<forall>nm. r = Inr nm \<longrightarrow>
            id' nm = (case in_id m of Some i \<Rightarrow> i | None \<Rightarrow> gid) \<and>
            table_get (id' nm) (memos s') = Some nm"
    using key stored ret by metis
  show ?thesis using a b c by (intro conjI)
qed

theorem addMemo_id_from_caller_witness:
  "table_get ''a1'' (memos example_db) = None \<and>
   table_get ''a1'' (memos (snd (addMemo ''g1'' 10 11
      \<lparr>in_id = Some ''a1'', in_folderId = Some ''f2'', in_title = Some ''T'', in_content = None,
       in_createdAt = Some 0, in_updatedAt = Some 0\<rparr> example_db))) =
     Some \<lparr>id' = ''a1'', createdAt = 10, updatedAt = 10,
           folderId = Some ''f2'', title = Some ''T'', content = None\<rparr> \<and>
   table_get ''g1'' (memos (snd (addMemo ''g1'' 10 11
      \<lparr>in_id = Some ''a1'', in_folderId = Some ''f2'', in_title = Some ''T'', in_content = None,
       in_createdAt = Some 0, in_updatedAt = Some 0\<rparr> example_db))) = None \<and>
   table_get ''g1'' (memos example_db) = None \<and>
   table_get ''g1'' (memos (snd (addMemo ''g1'' 10 11
      \<lparr>in_id = None, in_folderId = Some ''f2'', in_title = Some ''T'', in_content = None,
       in_createdAt = None, in_updatedAt = None\<rparr> example_db))) =
     Some \<lparr>id' = ''g1'', createdAt = 10, updatedAt = 10,
           folderId = Some ''f2'', title = Some ''T'', content = None\<rparr> \<and>
   (\<exists>nm. fst (addMemo ''g1'' 10 11
      \<lparr>in_id = Some ''a1'', in_folderId = Some ''f2'', in_title = Some ''T'', in_content = None,
       in_createdAt = Some 0, in_updatedAt = Some 0\<rparr> example_db) = Inr nm \<and> id' nm = ''a1'')"
proof -
  have free: "table_get ''a1'' (memos example_db) = None" "table_get ''g1'' (memos example_db) = None"
    by (simp_all add: table_get_def example_db_def plan_def blank_def dairy_def)
  have ok: "fst (addMemo ''g1'' 10 11
      \<lparr>in_id = Some ''a1'', in_folderId = Some ''f2'', in_title = Some ''T'', in_content = None,
       in_createdAt = Some 0, in_updatedAt = Some 0\<rparr> example_db) =
     Inr \<lparr>id' = ''a1'', createdAt = 10, updatedAt = 10,
           folderId = Some ''f2'', title = Some ''T'', content = None\<rparr>"
    using free(1)
    by (simp add: addMemo_def table_add_def newMemo_def updateFolderTimestamp_def)
  show ?thesis
    using free ok
      addMemo_id_from_caller [where gid = "''g1''" and now = 10 and ?now2.0 = 11 and s = example_db
        and m = "\<lparr>in_id = Some ''a1'', in_folderId = Some ''f2'', in_title = Some ''T'',
          in_content = None, in_createdAt = Some 0, in_updatedAt = Some 0\<rparr>",
        OF surjective_pairing]
      addMemo_id_from_caller [where gid = "''g1''" and now = 10 and ?now2.0 = 11 and s = example_db
        and m = "\<lparr>in_id = None, in_folderId = Some ''f2'', in_title = Some ''T'',
          in_content = None, in_createdAt = None, in_updatedAt = None\<rparr>",
        OF surjective_pairing]
    by (simp add: newMemo_def)
qed

subsection \<open>Searching\<close>




text \<open>
  Claim C3, as the specification has it, says that \<open>searchMemos("")\<close> returns nothing.
  The function has no test for the empty query: every string includes the empty string,
  so the search returns every memo with a title or a content that is not empty. Here it
  returns two of the three memos of the example.
\<close>

theorem searchMemos_empty_query_counterexample:
  "toLowerCase_ascii [] = [] \<and> fst (searchMemos toLowerCase_ascii [] example_db) = Inr [dairy, plan]"
  by (simp add: search_empty toLowerCase_ascii_def)

text \<open>
  Claim C3, amended. \<open>searchMemos("")\<close> returns, each once and newest first by
  \<open>updatedAt\<close>, every memo that has a title or a content that is not empty. And
  \<open>searchMemos\<close> on a term that matches no memo returns the empty list: a term that no
  lowered title or content includes once it is lowered, and so, where \<open>toLowerCase\<close>
  works letter by letter, a term that no title or content contains as a case-insensitive
  substring.
\<close>

theorem searchMemos_empty_or_unmatched:
  "(toLowerCase [] = [] \<longrightarrow>
      (\<exists>ms. fst (searchMemos toLowerCase [] s) = Inr ms \<and> newest_first ms \<and>
            mset ms = filter_mset (\<lambda>m. truthy (title m) \<or> truthy (content m)) (mset (memos s)))) \<and>
   ((\<forall>m\<in>set (memos s). \<not> lowered_contains toLowerCase q (title m) \<and>
                         \<not> lowered_contains toLowerCase q (content m)) \<longrightarrow>
      fst (searchMemos toLowerCase q s) = Inr []) \<and>
   (letter_by_letter toLowerCase lc same q (fields s) \<longrightarrow>
    (\<forall>m\<in>set (memos s). \<not> field_contains same q (title m) \<and> \<not> field_contains same q (content m)) \<longrightarrow>
      fst (searchMemos toLowerCase q s) = Inr [])"
proof -
  have a: "\<exists>ms. fst (searchMemos toLowerCase [] s) = Inr ms \<and> newest_first ms \<and>
            mset ms = filter_mset (\<lambda>m. truthy (title m) \<or> truthy (content m)) (mset (memos s))"
    if "toLowerCase [] = []"
  proof -
    let ?ms = "array_sort by_updatedAt (filter (\<lambda>m. truthy (title m) \<or> truthy (content m)) (memos s))"
    have "fst (searchMemos toLowerCase [] s) = Inr ?ms"
      using lowered_contains_Nil [of toLowerCase, OF that] by (simp add: searchMemos_eq)
    moreover have "newest_first ?ms" by (rule newest_first_array_sort)
    moreover have "mset ?ms = filter_mset (\<lambda>m. truthy (title m) \<or> truthy (content m)) (mset (memos s))"
      by (simp add: mset_array_sort)
    ultimately show ?thesis by blast
  qed
  have b: "fst (searchMemos toLowerCase q s) = Inr []"
    if "\<forall>m\<in>set (memos s). \<not> lowered_contains toLowerCase q (title m) \<and>
                            \<not> lowered_contains toLowerCase q (content m)"
  proof -
    have "filter (\<lambda>m. lowered_contains toLowerCase q (title m) \<or>
                       lowered_contains toLowerCase q (content m)) (memos s) = []"
      using that by (auto simp: filter_empty_conv)
    then show ?thesis by (simp add: searchMemos_eq array_sort_def)
  qed
  have c: "fst (searchMemos toLowerCase q s) = Inr []"
    if lbl: "letter_by_letter toLowerCase lc same q (fields s)"
      and no: "\<forall>m\<in>set (memos s). \<not> field_contains same q (title m) \<and> \<not> field_contains same q (content m)"
  proof -
    have "\<not> lowered_contains toLowerCase q (title m) \<and> \<not> lowered_contains toLowerCase q (content m)"
      if "m \<in> set (memos s)" for m
      using lowered_contains_field(1) [OF lbl] field_in_fields [OF that] no that by blast
    then show ?thesis using b by blast
  qed
  show ?thesis using a b c by blast
qed

theorem searchMemos_empty_or_unmatched_witness:
  "toLowerCase_ascii [] = [] \<and>
   letter_by_letter toLowerCase_ascii toLowerCase_ascii_char same_ascii_letter ''zzz''
     (fields example_db) \<and>
   \<not> field_contains same_ascii_letter ''zzz'' (title plan) \<and>
   \<not> field_contains same_ascii_letter ''zzz'' (content plan) \<and>
   \<not> field_contains same_ascii_letter ''zzz'' (title blank) \<and>
   \<not> field_contains same_ascii_letter ''zzz'' (content blank) \<and>
   \<not> field_contains same_ascii_letter ''zzz'' (title dairy) \<and>
   \<not> field_contains same_ascii_letter ''zzz'' (content dairy) \<and>
   \<not> lowered_contains toLowerCase_ascii ''zzz'' (title plan) \<and>
   \<not> lowered_contains toLowerCase_ascii ''zzz'' (content plan) \<and>
   \<not> lowered_contains toLowerCase_ascii ''zzz'' (title blank) \<and>
   \<not> lowered_contains toLowerCase_ascii ''zzz'' (content blank) \<and>
   \<not> lowered_contains toLowerCase_ascii ''zzz'' (title dairy) \<and>
   \<not> lowered_contains toLowerCase_ascii ''zzz'' (content dairy) \<and>
   fst (searchMemos toLowerCase_ascii ''zzz'' example_db) = Inr [] \<and>
   (\<exists>ms. fst (searchMemos toLowerCase_ascii [] example_db) = Inr ms \<and> newest_first ms \<and>
         mset ms = filter_mset (\<lambda>m. truthy (title m) \<or> truthy (content m))
                     (mset (memos example_db)))"
proof -
  have e: "toLowerCase_ascii [] = []" by (simp add: toLowerCase_ascii_def)
  have q: "''zzz'' \<noteq> []" by simp
  have low: "\<not> lowered_contains toLowerCase_ascii ''zzz'' (title m) \<and>
             \<not> lowered_contains toLowerCase_ascii ''zzz'' (content m)"
    if "m \<in> set (memos example_db)" for m
    using that no_zzz by (auto simp: and_includes_lowered example_db_def)
  have ci: "\<not> field_contains same_ascii_letter ''zzz'' (title m) \<and>
            \<not> field_contains same_ascii_letter ''zzz'' (content m)"
    if "m \<in> set (memos example_db)" for m
    using lowered_contains_field(2) [OF letters_zzz _ q] field_in_fields [OF that] low [OF that]
    by blast
  have mem: "plan \<in> set (memos example_db)" "blank \<in> set (memos example_db)"
    "dairy \<in> set (memos example_db)"
    by (simp_all add: example_db_def)
  show ?thesis
    using e letters_zzz low [OF mem(1)] low [OF mem(2)] low [OF mem(3)]
      ci [OF mem(1)] ci [OF mem(2)] ci [OF mem(3)] low ci
      searchMemos_empty_or_unmatched [of toLowerCase_ascii example_db "''zzz''"
        toLowerCase_ascii_char same_ascii_letter]
    by blast
qed

subsection \<open>Touching the folder of a memo\<close>

text \<open>
  Claim C5, as the specification has it, says that the \<open>updatedAt\<close> of a folder advances
  whenever a memo inside it is created or updated. \<open>updateMemo\<close> touches a folder only
  under \<open>if (updates.folderId)\<close>: an update that gives no \<open>folderId\<close> changes the memo
  and leaves its folder as it was.
\<close>

theorem folder_untouched_counterexample:
  "table_get ''m1'' (memos example_db) = Some plan \<and> folderId plan = Some ''f1'' \<and>
   table_get ''f1'' (folders example_db) = Some work \<and>
   fst (updateMemo 10 11 ''m1'' retitle example_db) =
     Inr (Some (plan\<lparr>title := Some ''Plan B'', updatedAt := 10\<rparr>)) \<and>
   table_get ''f1'' (folders (snd (updateMemo 10 11 ''m1'' retitle example_db))) = Some work \<and>
   updatedAt work = 1"
  by (simp add: run_retitle example_lookups) (simp add: table_get_def work_def plan_def)

text \<open>
  Claim C5, amended. When \<open>addMemo\<close> succeeds, the folder its argument names gets the
  clock's reading as \<open>updatedAt\<close> and no other folder changes. When \<open>updateMemo\<close> is
  given a \<open>folderId\<close> that is not empty, the folder it names (the new one) is touched in
  the same way and no other folder changes, the old one included. When \<open>updateMemo\<close> is
  given no \<open>folderId\<close>, or an empty one, no folder changes.
\<close>

theorem folder_touched_by_memo:
  "(\<forall>F nm. in_folderId m = Some F \<longrightarrow> fst (addMemo gid now now2 m s) = Inr nm \<longrightarrow>
      (\<forall>j. table_get j (folders (snd (addMemo gid now now2 m s))) =
           (if j = F then map_option (\<lambda>f. f\<lparr>updatedAt := now2\<rparr>) (table_get j (folders s))
            else table_get j (folders s)))) \<and>
   (\<forall>F. upd_folderId u = Some F \<longrightarrow> F \<noteq> [] \<longrightarrow>
      (\<forall>j. table_get j (folders (snd (updateMemo now now2 k u s))) =
           (if j = F then map_option (\<lambda>f. f\<lparr>updatedAt := now2\<rparr>) (table_get j (folders s))
            else table_get j (folders s)))) \<and>
   (upd_folderId u = None \<or> upd_folderId u = Some [] \<longrightarrow>
      folders (snd (updateMemo now now2 k u s)) = folders s)"
proof -
  have a: "table_get j (folders (snd (addMemo gid now now2 m s))) =
           (if j = F then map_option (\<lambda>f. f\<lparr>updatedAt := now2\<rparr>) (table_get j (folders s))
            else table_get j (folders s))"
    if "in_folderId m = Some F" and "fst (addMemo gid now now2 m s) = Inr nm" for F nm j
  proof -
    have "addMemo gid now now2 m s = (Inr nm, snd (addMemo gid now now2 m s))"
      using that(2) by (metis prod.collapse)
    then have "folders (snd (addMemo gid now now2 m s)) =
        table_update F (\<lambda>f. f\<lparr>updatedAt := now2\<rparr>) (folders s)"
      using addMemo_Inr that(1) by fastforce
    then show ?thesis by (simp add: table_get_touch)
  qed
  have b: "table_get j (folders (snd (updateMemo now now2 k u s))) =
           (if j = F then map_option (\<lambda>f. f\<lparr>updatedAt := now2\<rparr>) (table_get j (folders s))
            else table_get j (folders s))"
    if "upd_folderId u = Some F" and "F \<noteq> []" for F j
    using that by (simp add: updateMemo_folders truthy_def table_get_touch)
  have c: "folders (snd (updateMemo now now2 k u s)) = folders s"
    if "upd_folderId u = None \<or> upd_folderId u = Some []"
    using that by (auto simp: updateMemo_folders truthy_def)
  show ?thesis using a b c by blast
qed

theorem folder_touched_by_memo_witness:
  "in_folderId note_input = Some ''f2'' \<and>
   table_get ''f2'' (folders (snd (addMemo ''g1'' 10 11 note_input example_db))) =
     Some (home\<lparr>updatedAt := 11\<rparr>) \<and>
   upd_folderId move_home = Some ''f2'' \<and>
   table_get ''f2'' (folders (snd (updateMemo 10 11 ''m1'' move_home example_db))) =
     Some (home\<lparr>updatedAt := 11\<rparr>) \<and>
   table_get ''f1'' (folders (snd (updateMemo 10 11 ''m1'' move_home example_db))) = Some work \<and>
   upd_folderId retitle = None \<and>
   folders (snd (updateMemo 10 11 ''m1'' retitle example_db)) = folders example_db"
proof -
  have ok: "fst (addMemo ''g1'' 10 11 note_input example_db) =
      Inr \<lparr>id' = ''g1'', createdAt = 10, updatedAt = 10,
            folderId = Some ''f2'', title = Some ''T'', content = None\<rparr>"
    by (simp add: run_note_input)
  have f: "in_folderId note_input = Some ''f2''" "upd_folderId move_home = Some ''f2''"
    "upd_folderId retitle = None"
    by (simp_all add: note_input_def move_home_def retitle_def)
  show ?thesis
    using ok f example_lookups
      folder_touched_by_memo [of note_input "''g1''" 10 11 example_db move_home "''m1''"]
      folder_touched_by_memo [of note_input "''g1''" 10 11 example_db retitle "''m1''"]
    by simp
qed

subsection \<open>Who sets the timestamps\<close>

text \<open>
  Claim C9, as the specification has it, says that \<open>createdAt\<close> and \<open>updatedAt\<close> of a
  stored memo never come from the caller. \<open>updateMemo\<close> replaces only \<open>updatedAt\<close> of
  the updates it is given; a \<open>createdAt\<close> among them is written to the memo.
\<close>

theorem caller_createdAt_persisted_counterexample:
  "table_get ''m1'' (memos example_db) = Some plan \<and> createdAt plan = 3 \<and>
   upd_createdAt backdate = Some 0 \<and>
   table_get ''m1'' (memos (snd (updateMemo 10 11 ''m1'' backdate example_db))) =
     Some (plan\<lparr>createdAt := 0, updatedAt := 10\<rparr>)"
  by (simp add: run_backdate example_lookups) (simp add: table_get_def backdate_def plan_def)

text \<open>
  Claim C9, amended. \<open>addMemo\<close> stores and returns a memo whose \<open>createdAt\<close> and
  \<open>updatedAt\<close> are the clock's reading, whatever the argument holds. \<open>updateMemo\<close> on a
  memo that exists stores and returns it with the clock's reading as \<open>updatedAt\<close>,
  whatever the updates hold; its \<open>createdAt\<close> is the one of the updates when they have
  one and the stored one otherwise.
\<close>

theorem store_sets_timestamps:
  "(table_get (id' (newMemo gid now m)) (memos s) = None \<longrightarrow>
      (\<exists>p. table_get (id' (newMemo gid now m)) (memos (snd (addMemo gid now now2 m s))) = Some p \<and>
           createdAt p = now \<and> updatedAt p = now)) \<and>
   (\<forall>nm. fst (addMemo gid now now2 m s) = Inr nm \<longrightarrow> createdAt nm = now \<and> updatedAt nm = now) \<and>
   (\<forall>old. table_get k (memos s) = Some old \<longrightarrow>
      (\<exists>p. table_get k (memos (snd (updateMemo now now2 k u s))) = Some p \<and>
           fst (updateMemo now now2 k u s) = Inr (Some p) \<and>
           updatedAt p = now \<and>
           createdAt p = (case upd_createdAt u of Some c \<Rightarrow> c | None \<Rightarrow> createdAt old)))"
proof -
  have a: "\<exists>p. table_get (id' (newMemo gid now m)) (memos (snd (addMemo gid now now2 m s))) = Some p \<and>
           createdAt p = now \<and> updatedAt p = now"
    if free: "table_get (id' (newMemo gid now m)) (memos s) = None"
  proof -
    have "table_get (id' (newMemo gid now m)) (memos (snd (addMemo gid now now2 m s))) =
          Some (newMemo gid now m)"
      by (simp add: addMemo_memos [OF free] table_get_insort [OF free])
    moreover have "createdAt (newMemo gid now m) = now \<and> updatedAt (newMemo gid now m) = now"
      by (simp add: newMemo_def)
    ultimately show ?thesis by blast
  qed
  have b: "createdAt nm = now \<and> updatedAt nm = now"
    if "fst (addMemo gid now now2 m s) = Inr nm" for nm
  proof -
    have "addMemo gid now now2 m s = (Inr nm, snd (addMemo gid now now2 m s))"
      using that by (metis prod.collapse)
    then have "nm = newMemo gid now m" using addMemo_Inr by blast
    then show ?thesis by (simp add: newMemo_def)
  qed
  have c: "\<exists>p. table_get k (memos (snd (updateMemo now now2 k u s))) = Some p \<and>
           fst (updateMemo now now2 k u s) = Inr (Some p) \<and>
           updatedAt p = now \<and>
           createdAt p = (case upd_createdAt u of Some c \<Rightarrow> c | None \<Rightarrow> createdAt old)"
    if old: "table_get k (memos s) = Some old" for old
  proof -
    let ?p = "apply_changes (updateData now u) old"
    have get: "table_get k (table_update k (apply_changes (updateData now u)) (memos s)) = Some ?p"
      using old by (simp add: table_get_update id'_apply_changes)
    have "updatedAt ?p = now"
      by (simp add: apply_changes_def updateData_def)
    moreover have "createdAt ?p = (case upd_createdAt u of Some c \<Rightarrow> c | None \<Rightarrow> createdAt old)"
      by (simp add: apply_changes_def updateData_def)
    ultimately show ?thesis using get by (simp add: updateMemo_memos updateMemo_fst)
  qed
  show ?thesis using a b c by blast
qed

theorem store_sets_timestamps_witness:
  "table_get (id' (newMemo ''g1'' 10 note_input)) (memos example_db) = None \<and>
   in_createdAt note_input = Some 0 \<and> in_updatedAt note_input = Some 0 \<and>
   table_get ''g1'' (memos (snd (addMemo ''g1'' 10 11 note_input example_db))) =
     Some \<lparr>id' = ''g1'', createdAt = 10, updatedAt = 10,
           folderId = Some ''f2'', title = Some ''T'', content = None\<rparr> \<and>
   table_get ''m1'' (memos example_db) = Some plan \<and> upd_updatedAt backdate = Some 0 \<and>
   (\<exists>p. fst (updateMemo 10 11 ''m1'' backdate example_db) = Inr (Some p) \<and> updatedAt p = 10)"
proof -
  have key: "id' (newMemo ''g1'' 10 note_input) = ''g1''"
    by (simp add: newMemo_def note_input_def)
  have inp: "in_createdAt note_input = Some 0 \<and> in_updatedAt note_input = Some 0"
    "upd_updatedAt backdate = Some 0"
    by (simp_all add: note_input_def backdate_def)
  show ?thesis
    using key inp example_lookups
      store_sets_timestamps [of "''g1''" 10 note_input example_db 11 "''m1''" backdate]
    by (auto simp: run_note_input table_get_def)
qed

subsection \<open>The two steps of deleting a folder\<close>

text \<open>
  Claim C7, as the specification has it, says that while \<open>deleteFolder(id)\<close> runs, the
  folder is never gone with its memos still there. The folder is deleted first: after the
  first step of the example the folder is gone and both of its memos are in the store.
\<close>

theorem deleteFolder_intermediate_counterexample:
  "table_get ''f1'' (folders (run_steps (deleteFolder_steps ''f1'') example_db ! 1)) = None \<and>
   filter (where_folderId_equals ''f1'') (memos (run_steps (deleteFolder_steps ''f1'') example_db ! 1)) =
     [plan, blank]"
  by code_simp

text \<open>
  Claim C7, amended. \<open>deleteFolder(id)\<close> goes through one state between its start and
  its end. In that state the folder is gone and the memos are all those of the start. At
  the end the memos whose \<open>folderId\<close> is \<open>id\<close> are gone as well.
\<close>

theorem deleteFolder_intermediate_state:
  "run_steps (deleteFolder_steps F) s =
     [s,
      s\<lparr>folders := table_delete F (folders s)\<rparr>,
      s\<lparr>folders := table_delete F (folders s),
        memos := filter (\<lambda>m. folderId m \<noteq> Some F) (memos s)\<rparr>] \<and>
   snd (deleteFolder F s) =
      s\<lparr>folders := table_delete F (folders s),
        memos := filter (\<lambda>m. folderId m \<noteq> Some F) (memos s)\<rparr> \<and>
   table_get F (table_delete F (folders s)) = None"
  by (auto simp: deleteFolder_def deleteFolder_steps_def where_folderId_equals_def
                 table_get_None_iff table_delete_def)

theorem deleteFolder_intermediate_state_witness:
  "run_steps (deleteFolder_steps ''f1'') example_db =
     [\<lparr>folders = [work, home], memos = [plan, blank, dairy]\<rparr>,
      \<lparr>folders = [home], memos = [plan, blank, dairy]\<rparr>,
      \<lparr>folders = [home], memos = [dairy]\<rparr>]"
  using deleteFolder_intermediate_state [of "''f1''" example_db]
  by (simp add: example_db_def table_delete_def work_def home_def plan_def blank_def dairy_def)

subsection \<open>Restoring a backup\<close>

text \<open>
  Claim C8, as the specification has it, says that \<open>importData\<close> inserts the folders and
  memos of every payload as they are. The tables are keyed by \<open>id\<close> and filled with
  \<open>bulkAdd\<close>: of two folders with one id the second is refused, the promise is rejected,
  and the memos of the payload are never read.
\<close>

theorem importData_duplicate_counterexample:
  "data_folders twice_work = Some [work, work] \<and> data_memos twice_work = Some [plan] \<and>
   importData twice_work example_db = (Inl (BulkError 1), \<lparr>folders = [work], memos = []\<rparr>)"
  by (simp add: run_twice_work) (simp add: twice_work_def)

text \<open>
  Claim C8, amended. \<open>importData\<close> on a payload with no folders and no memos leaves both
  tables empty, whatever they held. On a payload whose folders have pairwise different
  ids and whose memos have pairwise different ids it leaves exactly the folders and the
  memos of the payload in the tables, each as it was given, with its id and its
  timestamps; nothing is asked of the \<open>folderId\<close> of an imported memo.
\<close>

theorem importData_overwrites:
  "importData \<lparr>data_folders = Some [], data_memos = Some [], exportedAt = e\<rparr> s =
     (Inr (), \<lparr>folders = [], memos = []\<rparr>) \<and>
   (distinct (map id' fs) \<longrightarrow> distinct (map id' ms) \<longrightarrow>
      (\<exists>fl ml. importData \<lparr>data_folders = Some fs, data_memos = Some ms, exportedAt = e\<rparr> s =
                 (Inr (), \<lparr>folders = fl, memos = ml\<rparr>) \<and>
               mset fl = mset fs \<and> mset ml = mset ms))"
proof -
  have a: "importData \<lparr>data_folders = Some [], data_memos = Some [], exportedAt = e\<rparr> s =
     (Inr (), \<lparr>folders = [], memos = []\<rparr>)"
    by (simp add: importData_Some)
  have b: "\<exists>fl ml. importData \<lparr>data_folders = Some fs, data_memos = Some ms, exportedAt = e\<rparr> s =
                 (Inr (), \<lparr>folders = fl, memos = ml\<rparr>) \<and>
               mset fl = mset fs \<and> mset ml = mset ms"
    if dfs: "distinct (map id' fs)" and dms: "distinct (map id' ms)"
  proof -
    obtain fl where fl: "table_bulkAdd fs [] = (0, fl)" "mset fl = mset fs"
      using table_bulkAdd_distinct [OF dfs, of "[]"] by auto
    obtain ml where ml: "table_bulkAdd ms [] = (0, ml)" "mset ml = mset ms"
      using table_bulkAdd_distinct [OF dms, of "[]"] by auto
    show ?thesis using fl ml by (simp add: importData_Some)
  qed
  show ?thesis using a b by blast
qed

theorem importData_overwrites_witness:
  "memos example_db \<noteq> [] \<and> folders example_db \<noteq> [] \<and>
   importData \<lparr>data_folders = Some [], data_memos = Some [], exportedAt = None\<rparr> example_db =
     (Inr (), \<lparr>folders = [], memos = []\<rparr>) \<and>
   distinct (map id' [home]) \<and> distinct (map id' [dairy, plan]) \<and>
   folderId plan = Some ''f1'' \<and> table_get ''f1'' [home] = None \<and>
   (\<exists>fl ml. importData orphan example_db = (Inr (), \<lparr>folders = fl, memos = ml\<rparr>) \<and>
            mset fl = mset [home] \<and> mset ml = mset [dairy, plan])"
proof -
  have d: "distinct (map id' [home])" "distinct (map id' [dairy, plan])"
    by (simp_all add: dairy_def plan_def)
  have ne: "memos example_db \<noteq> [] \<and> folders example_db \<noteq> []"
    by (simp add: example_db_def)
  have o: "folderId plan = Some ''f1'' \<and> table_get ''f1'' [home] = None"
    by (simp add: plan_def home_def table_get_def)
  show ?thesis
    using d ne o importData_overwrites [of None example_db "[home]" "[dairy, plan]"]
    unfolding orphan_def by blast
qed

subsection \<open>Export, then import\<close>

text \<open>
  Claim C2. \<open>exportAllData()\<close> returns the folders and the memos of the store and leaves
  the store as it is; \<open>importData\<close> on the document it returned then leaves the store
  as it was before the export: the same folders and the same memos, field by field. The
  store is any well-formed database: each table holds one object per key, as a table of
  IndexedDB does.
\<close>

theorem export_import_roundtrip:
  assumes "wf_db s"
  shows "\<exists>doc. exportAllData now s = (Inr doc, s) \<and>
           data_folders doc = Some (folders s) \<and> data_memos doc = Some (memos s) \<and>
           exportedAt doc = Some now \<and>
           importData doc s = (Inr (), s)"
proof -
  let ?doc = "\<lparr>data_folders = Some (folders s), data_memos = Some (memos s), exportedAt = Some now\<rparr>"
  from assms have "wf_table ([] @ folders s)" and "wf_table ([] @ memos s)"
    by (simp_all add: wf_db_def)
  then have "table_bulkAdd (folders s) [] = (0, folders s)"
    and "table_bulkAdd (memos s) [] = (0, memos s)"
    using table_bulkAdd_sorted [of "[]"] by fastforce+
  then have "importData ?doc s = (Inr (), s)"
    by (simp add: importData_Some)
  then show ?thesis by (simp add: exportAllData_eq)
qed

theorem export_import_roundtrip_witness:
  "wf_db example_db \<and>
   exportAllData 99 example_db =
     (Inr \<lparr>data_folders = Some [work, home], data_memos = Some [plan, blank, dairy],
           exportedAt = Some 99\<rparr>, example_db) \<and>
   importData \<lparr>data_folders = Some [work, home], data_memos = Some [plan, blank, dairy],
               exportedAt = Some 99\<rparr> example_db = (Inr (), example_db)"
  using wf_example_db export_import_roundtrip [OF wf_example_db, of 99]
  by (auto simp: exportAllData_eq) (simp_all add: example_db_def)

end
